theory Spec2Isabelle
  imports Main
begin

section \<open>JavaScript values carried by a tick record\<close>

text \<open>
  The fields of a per-tick object are read with \<^verbatim>\<open>this.ticks[tick]?.liquidityNet || '0'\<close>.
  What the code distinguishes is whether the field value is truthy. A field holds a decimal
  string (what \<^verbatim>\<open>fetchPoolData\<close> stores and what the default \<^verbatim>\<open>'0'\<close> is), an integral
  number, or nothing at all (\<^verbatim>\<open>undefined\<close>: the property is missing).
\<close>

datatype jsval = Undefined | Num int | Str string

fun truthy :: "jsval \<Rightarrow> bool" where
  "truthy Undefined = False"
| "truthy (Num n) = (n \<noteq> 0)"
| "truthy (Str s) = (s \<noteq> [])"

definition js_or :: "jsval \<Rightarrow> jsval \<Rightarrow> jsval" where
  \<comment> \<open>\<^verbatim>\<open>a || b\<close>\<close>
  "js_or a b = (if truthy a then a else b)"

record TickInfo =
  liquidityNet :: jsval
  liquidityGross :: jsval

section \<open>The tick data provider\<close>

text \<open>
  \<^verbatim>\<open>TickMath.MIN_TICK\<close> and \<^verbatim>\<open>TickMath.MAX_TICK\<close> are constants of the imported
  swap-math library; the provider is modelled for any value of the two, passed as a record.
\<close>

record TickMath =
  MIN_TICK :: int
  MAX_TICK :: int

text \<open>
  The object \<^verbatim>\<open>this.ticks\<close> maps a tick to its record. A numeric key is looked up by its
  canonical decimal name, so the object is a partial map on the integers; a stored record is
  an object and hence truthy, a missing key reads \<^verbatim>\<open>undefined\<close>.
\<close>

record ExampleTickDataProvider =
  ticks :: "int \<rightharpoonup> TickInfo"

datatype error = ValidationError | RpcError

text \<open>
  \<^verbatim>\<open>constructor(ticks) { this.ticks = ticks; }\<close> The result type has an error side so that
  a rejection could be expressed; the body has no failing branch.
\<close>

definition constructor :: "(int \<rightharpoonup> TickInfo) \<Rightarrow> error + ExampleTickDataProvider" where
  "constructor snapshot = Inr \<lparr>ticks = snapshot\<rparr>"

text \<open>
  Both methods are \<^verbatim>\<open>async\<close>: the value below is the value the returned promise is
  fulfilled with. Each method also returns the provider as it leaves it, so that what a call
  does to the object is part of its result.
\<close>

definition field_of :: "TickInfo option \<Rightarrow> (TickInfo \<Rightarrow> jsval) \<Rightarrow> jsval" where
  \<comment> \<open>\<^verbatim>\<open>entry?.field\<close>\<close>
  "field_of entry sel = (case entry of None \<Rightarrow> Undefined | Some e \<Rightarrow> sel e)"

definition getTick :: "ExampleTickDataProvider \<Rightarrow> int \<Rightarrow> TickInfo \<times> ExampleTickDataProvider" where
  "getTick this tick =
     (\<lparr>liquidityNet = js_or (field_of (ticks this tick) liquidityNet) (Str ''0''),
       liquidityGross = js_or (field_of (ticks this tick) liquidityGross) (Str ''0'')\<rparr>,
      this)"

text \<open>
  The \<^verbatim>\<open>while\<close> loop of \<^verbatim>\<open>nextInitializedTickWithinOneWord\<close>, entered with the first
  candidate, together with the \<^verbatim>\<open>return\<close> that follows it (the last branch). It need not
  terminate (a step of zero never leaves the range), so not returning is the value \<open>None\<close>.
  Ticks are integers; the arithmetic of the loop is exact on the candidates it visits.
\<close>

partial_function (option) scan_loop ::
  "TickMath \<Rightarrow> ExampleTickDataProvider \<Rightarrow> bool \<Rightarrow> int \<Rightarrow> int
     \<Rightarrow> ((int \<times> bool) \<times> ExampleTickDataProvider) option" where
  "scan_loop tm this zeroForOne step nextTick =
     (if nextTick \<ge> MIN_TICK tm \<and> nextTick \<le> MAX_TICK tm then
        (if ticks this nextTick \<noteq> None then Some ((nextTick, True), this)
         else scan_loop tm this zeroForOne step (nextTick + step))
      else Some ((if zeroForOne then MIN_TICK tm else MAX_TICK tm, False), this))"

definition nextInitializedTickWithinOneWord ::
  "TickMath \<Rightarrow> ExampleTickDataProvider \<Rightarrow> int \<Rightarrow> bool \<Rightarrow> int
     \<Rightarrow> ((int \<times> bool) \<times> ExampleTickDataProvider) option" where
  "nextInitializedTickWithinOneWord tm this tick zeroForOne tickSpacing =
     (let step = (if zeroForOne then - tickSpacing else tickSpacing);
          nextTick = tick + step
      in scan_loop tm this zeroForOne step nextTick)"

text \<open>The loop condition: the candidate lies in the valid coordinate range.\<close>

definition in_range :: "TickMath \<Rightarrow> int \<Rightarrow> bool" where
  "in_range tm t = (MIN_TICK tm \<le> t \<and> t \<le> MAX_TICK tm)"

text \<open>
  \<open>scan_trace\<close>: the loop entered at \<open>x\<close> runs through \<open>n\<close> rounds without returning,
  every candidate in range and none a key.
\<close>

definition scan_trace :: "TickMath \<Rightarrow> ExampleTickDataProvider \<Rightarrow> int \<Rightarrow> int \<Rightarrow> nat \<Rightarrow> bool" where
  "scan_trace tm this step x n =
     (\<forall>m<n. in_range tm (x + int m * step) \<and> ticks this (x + int m * step) = None)"

text \<open>
  The candidates of a call are \<open>tick + m * step\<close> for \<open>m = 1, 2, ...\<close>;
  \<open>first_stop\<close> says that the \<open>n\<close>-th is the first one that is out of range or a
  key of the index.
\<close>

definition first_stop :: "TickMath \<Rightarrow> ExampleTickDataProvider \<Rightarrow> int \<Rightarrow> int \<Rightarrow> nat \<Rightarrow> bool" where
  "first_stop tm this tick step n =
     (1 \<le> n \<and>
      (\<forall>m\<in>{1..<n}. in_range tm (tick + int m * step) \<and> ticks this (tick + int m * step) = None) \<and>
      (\<not> in_range tm (tick + int n * step) \<or> ticks this (tick + int n * step) \<noteq> None))"

text \<open>
  The bounds the swap-math library publishes for \<^verbatim>\<open>TickMath\<close>, used where a statement
  is evaluated on concrete ticks; every general statement is proved for arbitrary bounds.
\<close>

definition sdk_TickMath :: TickMath where
  "sdk_TickMath = \<lparr>MIN_TICK = - 887272, MAX_TICK = 887272\<rparr>"

section \<open>Fetching a snapshot\<close>

text \<open>
  The pool contract is the RPC collaborator: each call either rejects or yields a decoded
  value. Of the eight values \<^verbatim>\<open>pool.ticks\<close> returns, the code reads two. BigNumber results
  are integers; \<^verbatim>\<open>toString\<close> writes one in decimal. The four basic calls run
  concurrently; \<open>call_settled pool i\<close> is the time at which the \<open>i\<close>-th of them (in the
  order of the array given to \<^verbatim>\<open>Promise.all\<close>) settles.
\<close>

record Slot0 =
  slot0_sqrtPriceX96 :: int
  slot0_tick :: int

record TickData =
  td_liquidityNet :: int
  td_initialized :: bool

record PoolContract =
  call_fee :: "error + int"
  call_slot0 :: "error + Slot0"
  call_liquidity :: "error + int"
  call_tickSpacing :: "error + int"
  call_settled :: "nat \<Rightarrow> nat"
  call_ticks :: "int \<Rightarrow> error + TickData"

definition digit_char :: "nat \<Rightarrow> char" where
  "digit_char d = ''0123456789'' ! d"

fun nat_digits :: "nat \<Rightarrow> string" where
  "nat_digits n = (if n < 10 then [digit_char n] else nat_digits (n div 10) @ [digit_char (n mod 10)])"

declare nat_digits.simps [simp del]

definition toString :: "int \<Rightarrow> string" where
  "toString i = (if i < 0 then CHR ''-'' # nat_digits (nat (- i)) else nat_digits (nat i))"

text \<open>The object a tick promise resolves to; \<open>None\<close> is the \<^verbatim>\<open>null\<close> of \<^verbatim>\<open>.catch(() => null)\<close>.\<close>

record TickResult =
  tr_tick :: int
  tr_liquidityNet :: string
  tr_initialized :: bool

definition fetch_tick :: "PoolContract \<Rightarrow> int \<Rightarrow> TickResult option" where
  "fetch_tick pool tick =
     (case call_ticks pool tick of
        Inl _ \<Rightarrow> None
      | Inr tickData \<Rightarrow>
          Some \<lparr>tr_tick = tick,
                tr_liquidityNet = toString (td_liquidityNet tickData),
                tr_initialized = td_initialized tickData\<rparr>)"

text \<open>
  \<^verbatim>\<open>for (let tick = startTick; tick <= endTick; tick += tickSpacing)\<close>, pushing one promise
  per round. With a spacing below one the loop may run forever.
\<close>

partial_function (option) tickPromises_loop ::
  "PoolContract \<Rightarrow> int \<Rightarrow> int \<Rightarrow> int \<Rightarrow> TickResult option list
     \<Rightarrow> TickResult option list option" where
  "tickPromises_loop pool tick endTick tickSpacing tickPromises =
     (if tick \<le> endTick then
        tickPromises_loop pool (tick + tickSpacing) endTick tickSpacing
          (tickPromises @ [fetch_tick pool tick])
      else Some tickPromises)"

text \<open>\<^verbatim>\<open>for (const tickData of tickResults)\<close>: only \<^verbatim>\<open>liquidityNet\<close> is stored.\<close>

fun collect_initialized ::
  "TickResult option list \<Rightarrow> (int \<rightharpoonup> TickInfo) \<Rightarrow> (int \<rightharpoonup> TickInfo)" where
  "collect_initialized [] initializedTicks = initializedTicks"
| "collect_initialized (r # rs) initializedTicks =
     collect_initialized rs
       (case r of
          None \<Rightarrow> initializedTicks
        | Some tickData \<Rightarrow>
            (if tr_initialized tickData then
               initializedTicks(tr_tick tickData \<mapsto>
                 \<lparr>liquidityNet = Str (tr_liquidityNet tickData), liquidityGross = Undefined\<rparr>)
             else initializedTicks))"

text \<open>
  \<^verbatim>\<open>Math.floor(currentTick / tickSpacing) * tickSpacing -/+ tickRange * tickSpacing\<close>. The
  quotient of two 24-bit integers is floored exactly, which is integer \<open>div\<close>; the case of
  a zero spacing, where the JavaScript value is \<^verbatim>\<open>NaN\<close>, is handled where the bounds are
  used.
\<close>

definition startTick :: "int \<Rightarrow> int \<Rightarrow> int \<Rightarrow> int" where
  "startTick currentTick tickSpacing tickRange =
     (currentTick div tickSpacing) * tickSpacing - (tickRange * tickSpacing)"

definition endTick :: "int \<Rightarrow> int \<Rightarrow> int \<Rightarrow> int" where
  "endTick currentTick tickSpacing tickRange =
     (currentTick div tickSpacing) * tickSpacing + (tickRange * tickSpacing)"

record PoolData =
  pd_fee :: int
  pd_sqrtPriceX96 :: string
  pd_tickCurrent :: int
  pd_liquidity :: string
  pd_tickSpacing :: int
  pd_zeroForOne :: bool
  pd_ticks :: "int \<rightharpoonup> TickInfo"

text \<open>
  \<^verbatim>\<open>Promise.all\<close> rejects as soon as one of its promises rejects, with the reason of that
  promise: of the calls that reject, the one that settles first (the earlier in the array
  when two settle together).
\<close>

definition rejection :: "error + 'a \<Rightarrow> error option" where
  "rejection r = (case r of Inl e \<Rightarrow> Some e | Inr _ \<Rightarrow> None)"

fun first_rejection :: "(nat \<times> error option) list \<Rightarrow> (nat \<times> error) option" where
  "first_rejection [] = None"
| "first_rejection ((t, None) # rs) = first_rejection rs"
| "first_rejection ((t, Some e) # rs) =
     (case first_rejection rs of
        None \<Rightarrow> Some (t, e)
      | Some (t', e') \<Rightarrow> (if t \<le> t' then Some (t, e) else Some (t', e')))"

definition promise_all_rejection :: "PoolContract \<Rightarrow> error option" where
  "promise_all_rejection pool =
     map_option snd
       (first_rejection
          [(call_settled pool 0, rejection (call_fee pool)),
           (call_settled pool 1, rejection (call_slot0 pool)),
           (call_settled pool 2, rejection (call_liquidity pool)),
           (call_settled pool 3, rejection (call_tickSpacing pool))])"

text \<open>
  When \<^verbatim>\<open>Promise.all\<close> of the four basic calls rejects, the rejection is caught, logged
  and rethrown; otherwise all four have a value (the inner rejection branches below are
  then not taken). With \<^verbatim>\<open>tickSpacing = 0\<close> both bounds are \<^verbatim>\<open>NaN\<close>, the loop condition is
  false at once and no tick is fetched. The argument \<^verbatim>\<open>tickRange\<close> is always passed (its
  default is 10); what is written to the console is not part of the result.
\<close>

definition fetchPoolData :: "PoolContract \<Rightarrow> bool \<Rightarrow> int \<Rightarrow> (error + PoolData) option" where
  "fetchPoolData pool zeroForOne tickRange =
     (case promise_all_rejection pool of Some e \<Rightarrow> Some (Inl e) | None \<Rightarrow>
     (case call_fee pool of Inl e \<Rightarrow> Some (Inl e) | Inr fee \<Rightarrow>
     (case call_slot0 pool of Inl e \<Rightarrow> Some (Inl e) | Inr slot0Data \<Rightarrow>
     (case call_liquidity pool of Inl e \<Rightarrow> Some (Inl e) | Inr liquidity \<Rightarrow>
     (case call_tickSpacing pool of Inl e \<Rightarrow> Some (Inl e) | Inr tickSpacing \<Rightarrow>
        (let currentTick = slot0_tick slot0Data in
         (case (if tickSpacing = 0 then Some []
                else tickPromises_loop pool
                       (startTick currentTick tickSpacing tickRange)
                       (endTick currentTick tickSpacing tickRange) tickSpacing []) of
            None \<Rightarrow> None
          | Some tickResults \<Rightarrow>
              Some (Inr \<lparr>pd_fee = fee,
                         pd_sqrtPriceX96 = toString (slot0_sqrtPriceX96 slot0Data),
                         pd_tickCurrent = currentTick,
                         pd_liquidity = toString liquidity,
                         pd_tickSpacing = tickSpacing,
                         pd_zeroForOne = zeroForOne,
                         pd_ticks = collect_initialized tickResults Map.empty\<rparr>))))))))"

section \<open>Concrete indexes\<close>

text \<open>
  The index of the concrete scenario: spacing 60, initialized ticks \<open>-120\<close> and \<open>60\<close>.
  In the first index the amounts are decimal strings, as this code carries them
  (\<^verbatim>\<open>fetchPoolData\<close> stores \<^verbatim>\<open>liquidityNet.toString()\<close>, the default of \<^verbatim>\<open>getTick\<close> is
  \<^verbatim>\<open>'0'\<close>); the second index holds the same amounts as numbers, as the scenario writes
  them.
\<close>

definition example_index :: ExampleTickDataProvider where
  "example_index =
     \<lparr>ticks = [- 120 \<mapsto> \<lparr>liquidityNet = Str ''1000'', liquidityGross = Str ''1000''\<rparr>,
               60 \<mapsto> \<lparr>liquidityNet = Str ''-1000'', liquidityGross = Str ''1000''\<rparr>]\<rparr>"

definition example_index_num :: ExampleTickDataProvider where
  "example_index_num =
     \<lparr>ticks = [- 120 \<mapsto> \<lparr>liquidityNet = Num 1000, liquidityGross = Num 1000\<rparr>,
               60 \<mapsto> \<lparr>liquidityNet = Num (- 1000), liquidityGross = Num 1000\<rparr>]\<rparr>"

text \<open>An index with a key above the maximum tick, and one with three neighbouring keys.\<close>

definition edge_index :: ExampleTickDataProvider where
  "edge_index =
     \<lparr>ticks = [887220 \<mapsto> \<lparr>liquidityNet = Str ''1000'', liquidityGross = Str ''1000''\<rparr>,
               887280 \<mapsto> \<lparr>liquidityNet = Str ''-1000'', liquidityGross = Str ''1000''\<rparr>]\<rparr>"

definition dense_index :: ExampleTickDataProvider where
  "dense_index =
     \<lparr>ticks = [- 60 \<mapsto> \<lparr>liquidityNet = Str ''500'', liquidityGross = Str ''500''\<rparr>,
               0 \<mapsto> \<lparr>liquidityNet = Str ''500'', liquidityGross = Str ''500''\<rparr>,
               60 \<mapsto> \<lparr>liquidityNet = Str ''-1000'', liquidityGross = Str ''1000''\<rparr>]\<rparr>"


definition partial_index :: ExampleTickDataProvider where
  "partial_index = \<lparr>ticks = [60 \<mapsto> \<lparr>liquidityNet = Str ''-1000'', liquidityGross = Undefined\<rparr>]\<rparr>"

text \<open>The zero-valued record: both amounts the decimal string \<^verbatim>\<open>'0'\<close>.\<close>

definition zero_info :: TickInfo where
  "zero_info = \<lparr>liquidityNet = Str ''0'', liquidityGross = Str ''0''\<rparr>"

text \<open>The results of the first \<open>n\<close> rounds of the fetch loop entered at \<open>tick\<close>.\<close>

definition fetched :: "PoolContract \<Rightarrow> int \<Rightarrow> int \<Rightarrow> nat \<Rightarrow> TickResult option list" where
  "fetched pool tick tickSpacing n = map (\<lambda>i. fetch_tick pool (tick + int i * tickSpacing)) [0..<n]"

text \<open>
  A pool with spacing 60 and current tick 7, fetched with \<^verbatim>\<open>tickRange = 1\<close>: tick \<open>-60\<close> is
  not initialized, the call for tick \<open>0\<close> rejects, tick \<open>60\<close> is initialized. The second
  definition is the snapshot \<^verbatim>\<open>fetchPoolData\<close> returns for it.
\<close>

definition example_pool :: PoolContract where
  "example_pool =
     \<lparr>call_fee = Inr 500,
      call_slot0 = Inr \<lparr>slot0_sqrtPriceX96 = 1829744519839346889661884864, slot0_tick = 7\<rparr>,
      call_liquidity = Inr 3161000000,
      call_tickSpacing = Inr 60,
      call_settled = (\<lambda>i. i),
      call_ticks = (\<lambda>t. if t = 60 then Inr \<lparr>td_liquidityNet = - 1000, td_initialized = True\<rparr>
                        else if t = 0 then Inl RpcError
                        else Inr \<lparr>td_liquidityNet = 0, td_initialized = False\<rparr>)\<rparr>"

definition example_pool_data :: PoolData where
  "example_pool_data =
     \<lparr>pd_fee = 500,
      pd_sqrtPriceX96 = ''1829744519839346889661884864'',
      pd_tickCurrent = 7,
      pd_liquidity = ''3161000000'',
      pd_tickSpacing = 60,
      pd_zeroForOne = True,
      pd_ticks = [60 \<mapsto> \<lparr>liquidityNet = Str ''-1000'', liquidityGross = Undefined\<rparr>]\<rparr>"

section \<open>The scanning loop\<close>

lemma scan_loop_out:
  "\<not> in_range tm x \<Longrightarrow>
   scan_loop tm this z step x = Some ((if z then MIN_TICK tm else MAX_TICK tm, False), this)"
  by (subst scan_loop.simps) (auto simp: in_range_def)

lemma scan_loop_hit:
  "in_range tm x \<Longrightarrow> ticks this x \<noteq> None \<Longrightarrow>
   scan_loop tm this z step x = Some ((x, True), this)"
  by (subst scan_loop.simps) (simp add: in_range_def)

lemma scan_loop_step:
  "in_range tm x \<Longrightarrow> ticks this x = None \<Longrightarrow>
   scan_loop tm this z step x = scan_loop tm this z step (x + step)"
  by (subst scan_loop.simps) (simp add: in_range_def)

lemma scan_found:
  "(\<forall>m<n. in_range tm (x + int m * step) \<and> ticks this (x + int m * step) = None) \<Longrightarrow>
   in_range tm (x + int n * step) \<Longrightarrow> ticks this (x + int n * step) \<noteq> None \<Longrightarrow>
   scan_loop tm this z step x = Some ((x + int n * step, True), this)"
proof (induction n arbitrary: x)
  case 0
  then show ?case by (simp add: scan_loop.simps in_range_def)
next
  case (Suc n)
  have h0: "in_range tm x" "ticks this x = None" using Suc.prems(1)[rule_format, of 0] by simp_all
  have "scan_loop tm this z step (x + step) = Some ((x + step + int n * step, True), this)"
  proof (rule Suc.IH)
    show "\<forall>m<n. in_range tm (x + step + int m * step) \<and> ticks this (x + step + int m * step) = None"
    proof (intro allI impI)
      fix m assume "m < n"
      then have "Suc m < Suc n" by simp
      from Suc.prems(1)[rule_format, OF this] show "in_range tm (x + step + int m * step) \<and> ticks this (x + step + int m * step) = None"
        by (simp add: algebra_simps)
    qed
    show "in_range tm (x + step + int n * step)" using Suc.prems(2) by (simp add: algebra_simps)
    show "ticks this (x + step + int n * step) \<noteq> None" using Suc.prems(3) by (simp add: algebra_simps)
  qed
  then show ?case using h0 by (subst scan_loop.simps) (simp add: in_range_def algebra_simps)
qed

lemma scan_exhaust:
  "(\<forall>m<n. in_range tm (x + int m * step) \<and> ticks this (x + int m * step) = None) \<Longrightarrow>
   \<not> in_range tm (x + int n * step) \<Longrightarrow>
   scan_loop tm this z step x = Some ((if z then MIN_TICK tm else MAX_TICK tm, False), this)"
proof (induction n arbitrary: x)
  case 0
  then show ?case by (simp add: scan_loop_out)
next
  case (Suc n)
  have h0: "in_range tm x" "ticks this x = None" using Suc.prems(1)[rule_format, of 0] by simp_all
  have "scan_loop tm this z step (x + step) = Some ((if z then MIN_TICK tm else MAX_TICK tm, False), this)"
  proof (rule Suc.IH)
    show "\<forall>m<n. in_range tm (x + step + int m * step) \<and> ticks this (x + step + int m * step) = None"
    proof (intro allI impI)
      fix m assume "m < n"
      then have "Suc m < Suc n" by simp
      from Suc.prems(1)[rule_format, OF this] show "in_range tm (x + step + int m * step) \<and> ticks this (x + step + int m * step) = None"
        by (simp add: algebra_simps)
    qed
    show "\<not> in_range tm (x + step + int n * step)" using Suc.prems(2) by (simp add: algebra_simps)
  qed
  then show ?case using h0 by (simp add: scan_loop_step)
qed

lemma scan_trace_shift:
  assumes "in_range tm x" "ticks this x = None" "scan_trace tm this step (x + step) n"
  shows "scan_trace tm this step x (Suc n)"
  unfolding scan_trace_def
proof (intro allI impI)
  fix m assume m: "m < Suc n"
  show "in_range tm (x + int m * step) \<and> ticks this (x + int m * step) = None"
  proof (cases m)
    case 0
    then show ?thesis using assms by simp
  next
    case (Suc k)
    then have "k < n" using m by simp
    with assms(3) have "in_range tm (x + step + int k * step) \<and> ticks this (x + step + int k * step) = None"
      by (simp add: scan_trace_def)
    then show ?thesis using Suc by (simp add: algebra_simps)
  qed
qed

lemma scan_sound:
  "scan_loop tm this z step x = Some r \<Longrightarrow>
   \<exists>n. scan_trace tm this step x n \<and>
     (if in_range tm (x + int n * step)
      then ticks this (x + int n * step) \<noteq> None \<and> r = ((x + int n * step, True), this)
      else r = ((if z then MIN_TICK tm else MAX_TICK tm, False), this))"
proof (induction rule: scan_loop.raw_induct[rotated 1, consumes 1])
  case (1 f tm this z step x r)
  show ?case
  proof (cases "in_range tm x")
    case False
    then have "r = ((if z then MIN_TICK tm else MAX_TICK tm, False), this)"
      using 1(2) by (auto simp: in_range_def)
    with False have "scan_trace tm this step x 0 \<and>
     (if in_range tm (x + int 0 * step)
      then ticks this (x + int 0 * step) \<noteq> None \<and> r = ((x + int 0 * step, True), this)
      else r = ((if z then MIN_TICK tm else MAX_TICK tm, False), this))"
      by (simp add: scan_trace_def)
    then show ?thesis by blast
  next
    case True
    show ?thesis
    proof (cases "ticks this x")
      case (Some e)
      then have "r = ((x, True), this)" using 1(2) True by (simp add: in_range_def)
      with True Some have "scan_trace tm this step x 0 \<and>
       (if in_range tm (x + int 0 * step)
        then ticks this (x + int 0 * step) \<noteq> None \<and> r = ((x + int 0 * step, True), this)
        else r = ((if z then MIN_TICK tm else MAX_TICK tm, False), this))"
        by (simp add: scan_trace_def)
      then show ?thesis by blast
    next
      case None
      then have "f tm this z step (x + step) = Some r" using 1(2) True by (simp add: in_range_def)
      from 1(1)[OF this] obtain n where n: "scan_trace tm this step (x + step) n"
        "(if in_range tm (x + step + int n * step)
          then ticks this (x + step + int n * step) \<noteq> None \<and> r = ((x + step + int n * step, True), this)
          else r = ((if z then MIN_TICK tm else MAX_TICK tm, False), this))" by blast
      have eq: "x + int (Suc n) * step = x + step + int n * step" by (simp add: algebra_simps)
      have "scan_trace tm this step x (Suc n)" using scan_trace_shift[OF True None n(1)] .
      moreover have "(if in_range tm (x + int (Suc n) * step)
          then ticks this (x + int (Suc n) * step) \<noteq> None \<and> r = ((x + int (Suc n) * step, True), this)
          else r = ((if z then MIN_TICK tm else MAX_TICK tm, False), this))"
        unfolding eq using n(2) .
      ultimately show ?thesis by blast
    qed
  qed
qed

lemma leaves_range:
  assumes "step \<noteq> 0"
  shows "\<exists>n. \<not> in_range tm (x + int n * step)"
proof (cases "0 < step")
  case True
  define n where "n = nat (MAX_TICK tm - x + 1)"
  have "int n \<ge> MAX_TICK tm - x + 1" by (simp add: n_def)
  moreover have "int n * 1 \<le> int n * step" using True by (intro mult_left_mono) simp_all
  ultimately have "x + int n * step > MAX_TICK tm" by linarith
  then have "\<not> in_range tm (x + int n * step)" by (simp add: in_range_def)
  then show ?thesis by blast
next
  case False
  with assms have neg: "step < 0" by simp
  define n where "n = nat (x - MIN_TICK tm + 1)"
  have "int n \<ge> x - MIN_TICK tm + 1" by (simp add: n_def)
  moreover have "int n * 1 \<le> int n * (- step)" using neg by (intro mult_left_mono) simp_all
  ultimately have "x + int n * step < MIN_TICK tm" by (simp add: algebra_simps)
  then have "\<not> in_range tm (x + int n * step)" by (simp add: in_range_def)
  then show ?thesis by blast
qed

lemma scan_total:
  assumes "step \<noteq> 0"
  shows "\<exists>r. scan_loop tm this z step x = Some r"
proof -
  let ?stop = "\<lambda>n. \<not> in_range tm (x + int n * step) \<or> ticks this (x + int n * step) \<noteq> None"
  from leaves_range[OF assms] have "\<exists>n. ?stop n" by blast
  then obtain n where n: "?stop n" "\<forall>m<n. \<not> ?stop m"
    using exists_least_iff[of ?stop] by blast
  from n(2) have tr: "\<forall>m<n. in_range tm (x + int m * step) \<and> ticks this (x + int m * step) = None"
    by blast
  show ?thesis
  proof (cases "in_range tm (x + int n * step)")
    case True
    with n(1) have "ticks this (x + int n * step) \<noteq> None" by blast
    from scan_found[OF tr True this] show ?thesis by blast
  next
    case False
    from scan_exhaust[OF tr False] show ?thesis by blast
  qed
qed

lemma scan_stuck:
  assumes "in_range tm x" "ticks this x = None"
  shows "scan_loop tm this z 0 x = None"
proof (cases "scan_loop tm this z 0 x")
  case None then show ?thesis .
next
  case (Some r)
  from scan_sound[OF Some] show ?thesis using assms by auto
qed


section \<open>Stepping between keys\<close>

lemma between_pos:
  fixes a b step t :: int
  assumes "0 < a" "a < b" "0 < step"
  shows "t < t + a * step" "t + a * step < t + b * step"
proof -
  have "0 < a * step" using assms(1,3) by (rule mult_pos_pos)
  then show "t < t + a * step" by simp
  have "a * step < b * step" using assms(2,3) by (rule mult_strict_right_mono)
  then show "t + a * step < t + b * step" by simp
qed

lemma between_neg:
  fixes a b step t :: int
  assumes "0 < a" "a < b" "step < 0"
  shows "t + a * step < t" "t + b * step < t + a * step"
proof -
  have "a * step < 0" using assms(1,3) by (rule mult_pos_neg)
  then show "t + a * step < t" by simp
  have "b * step < a * step" using assms(2,3) by (rule mult_strict_right_mono_neg)
  then show "t + b * step < t + a * step" by simp
qed

lemma next_unfold:
  "nextInitializedTickWithinOneWord tm this tick zeroForOne tickSpacing =
     scan_loop tm this zeroForOne (if zeroForOne then - tickSpacing else tickSpacing)
       (tick + (if zeroForOne then - tickSpacing else tickSpacing))"
  by (simp add: nextInitializedTickWithinOneWord_def Let_def)

lemma scan_adjacent:
  assumes step: "step \<noteq> 0"
    and t': "t' = t + int (Suc n) * step"
    and rng: "in_range tm t" "in_range tm t'"
    and key: "ticks this t' \<noteq> None"
    and gap: "\<forall>k. min t t' < k \<and> k < max t t' \<longrightarrow> ticks this k = None"
  shows "scan_loop tm this z step (t + step) = Some ((t', True), this)"
proof -
  have tr: "\<forall>m<n. in_range tm (t + step + int m * step) \<and> ticks this (t + step + int m * step) = None"
  proof (intro allI impI)
    fix m assume m: "m < n"
    have eq: "t + step + int m * step = t + int (Suc m) * step" by (simp add: algebra_simps)
    have ab: "0 < int (Suc m)" "int (Suc m) < int (Suc n)" using m by simp_all
    have strict: "min t t' < t + int (Suc m) * step \<and> t + int (Suc m) * step < max t t'"
    proof (cases "0 < step")
      case True
      from between_pos[OF ab True, of t] show ?thesis unfolding t' by simp
    next
      case False
      with step have "step < 0" by simp
      from between_neg[OF ab this, of t] show ?thesis unfolding t' by simp
    qed
    with gap have "ticks this (t + int (Suc m) * step) = None" by blast
    moreover have "in_range tm (t + int (Suc m) * step)"
      using strict rng by (auto simp: in_range_def min_def max_def split: if_splits)
    ultimately show "in_range tm (t + step + int m * step) \<and> ticks this (t + step + int m * step) = None"
      unfolding eq by simp
  qed
  have e: "t + step + int n * step = t'" unfolding t' by (simp add: algebra_simps)
  from scan_found[OF tr, of z] rng(2) key show ?thesis unfolding e by simp
qed

lemma dvd_gap:
  assumes "1 \<le> (s::int)" "s dvd t1" "s dvd t2" "t1 < t2"
  obtains n where "t2 = t1 + int (Suc n) * s"
proof -
  have "s dvd (t2 - t1)" by (rule dvd_diff[OF assms(3) assms(2)])
  then obtain q where q: "t2 - t1 = s * q" by (auto simp: dvd_def)
  have "0 < s * q" using assms(4) q by simp
  then have "0 < q" using assms(1) by (simp add: zero_less_mult_iff)
  then have "q = int (Suc (nat q - 1))" by simp
  then obtain n where "q = int (Suc n)" ..
  then have "t2 = t1 + int (Suc n) * s" using q by (simp add: algebra_simps)
  then show ?thesis by (rule that)
qed

lemma next_adjacent_up:
  assumes "1 \<le> tickSpacing" "tickSpacing dvd t1" "tickSpacing dvd t2" "t1 < t2"
    "in_range tm t1" "in_range tm t2" "ticks this t2 \<noteq> None"
    "\<forall>k. t1 < k \<and> k < t2 \<longrightarrow> ticks this k = None"
  shows "nextInitializedTickWithinOneWord tm this t1 False tickSpacing = Some ((t2, True), this)"
proof -
  from dvd_gap[OF assms(1-4)] obtain n where n: "t2 = t1 + int (Suc n) * tickSpacing" .
  have ne: "tickSpacing \<noteq> 0" using assms(1) by simp
  have gap: "\<forall>k. min t1 t2 < k \<and> k < max t1 t2 \<longrightarrow> ticks this k = None"
    using assms(4,8) by (simp add: min_def max_def)
  have "scan_loop tm this False tickSpacing (t1 + tickSpacing) = Some ((t2, True), this)"
    by (rule scan_adjacent[OF ne n assms(5,6,7) gap])
  then show ?thesis by (simp add: next_unfold)
qed

lemma next_adjacent_down:
  assumes "1 \<le> tickSpacing" "tickSpacing dvd t1" "tickSpacing dvd t2" "t1 < t2"
    "in_range tm t1" "in_range tm t2" "ticks this t1 \<noteq> None"
    "\<forall>k. t1 < k \<and> k < t2 \<longrightarrow> ticks this k = None"
  shows "nextInitializedTickWithinOneWord tm this t2 True tickSpacing = Some ((t1, True), this)"
proof -
  from dvd_gap[OF assms(1-4)] obtain n where n: "t2 = t1 + int (Suc n) * tickSpacing" .
  then have n': "t1 = t2 + int (Suc n) * (- tickSpacing)" by (simp add: algebra_simps)
  have ne: "- tickSpacing \<noteq> 0" using assms(1) by simp
  have gap: "\<forall>k. min t2 t1 < k \<and> k < max t2 t1 \<longrightarrow> ticks this k = None"
    using assms(4,8) by (simp add: min_def max_def)
  have "scan_loop tm this True (- tickSpacing) (t2 + (- tickSpacing)) = Some ((t1, True), this)"
    by (rule scan_adjacent[OF ne n' assms(6,5,7) gap])
  then show ?thesis by (simp add: next_unfold)
qed

lemma next_first_stop:
  assumes "tickSpacing \<noteq> 0"
  shows "\<exists>n. first_stop tm this tick (if zeroForOne then - tickSpacing else tickSpacing) n \<and>
     nextInitializedTickWithinOneWord tm this tick zeroForOne tickSpacing =
       Some (if in_range tm (tick + int n * (if zeroForOne then - tickSpacing else tickSpacing))
             then (tick + int n * (if zeroForOne then - tickSpacing else tickSpacing), True)
             else (if zeroForOne then MIN_TICK tm else MAX_TICK tm, False), this)"
proof -
  define step where "step = (if zeroForOne then - tickSpacing else tickSpacing)"
  have step: "step \<noteq> 0" using assms by (simp add: step_def)
  from scan_total[OF step] obtain r where r: "scan_loop tm this zeroForOne step (tick + step) = Some r"
    by blast
  from scan_sound[OF r] obtain n where n: "scan_trace tm this step (tick + step) n"
    "(if in_range tm (tick + step + int n * step)
      then ticks this (tick + step + int n * step) \<noteq> None \<and> r = ((tick + step + int n * step, True), this)
      else r = ((if zeroForOne then MIN_TICK tm else MAX_TICK tm, False), this))" by blast
  have eq: "tick + step + int n * step = tick + int (Suc n) * step" by (simp add: algebra_simps)
  have tr: "\<forall>m\<in>{1..<Suc n}. in_range tm (tick + int m * step) \<and> ticks this (tick + int m * step) = None"
  proof
    fix m assume "m \<in> {1..<Suc n}"
    then obtain k where k: "m = Suc k" "k < n" by (cases m) auto
    from n(1) k(2) have "in_range tm (tick + step + int k * step) \<and> ticks this (tick + step + int k * step) = None"
      by (simp add: scan_trace_def)
    then show "in_range tm (tick + int m * step) \<and> ticks this (tick + int m * step) = None"
      unfolding k(1) by (simp add: algebra_simps)
  qed
  have fs: "first_stop tm this tick step (Suc n)"
    unfolding first_stop_def using tr n(2) unfolding eq by (auto split: if_splits)
  have res: "r = (if in_range tm (tick + int (Suc n) * step) then (tick + int (Suc n) * step, True)
             else (if zeroForOne then MIN_TICK tm else MAX_TICK tm, False), this)"
    using n(2) unfolding eq by (auto split: if_splits)
  have "nextInitializedTickWithinOneWord tm this tick zeroForOne tickSpacing = Some r"
    using r by (simp add: next_unfold step_def)
  with fs res show ?thesis unfolding step_def by blast
qed

lemma next_not_start:
  assumes "tickSpacing \<noteq> 0"
  shows "nextInitializedTickWithinOneWord tm this tick zeroForOne tickSpacing \<noteq> Some ((tick, True), p)"
proof -
  define step where "step = (if zeroForOne then - tickSpacing else tickSpacing)"
  from next_first_stop[OF assms, of tm this tick zeroForOne] obtain n where
    n: "first_stop tm this tick step n"
    "nextInitializedTickWithinOneWord tm this tick zeroForOne tickSpacing =
       Some (if in_range tm (tick + int n * step) then (tick + int n * step, True)
             else (if zeroForOne then MIN_TICK tm else MAX_TICK tm, False), this)"
    unfolding step_def by blast
  have "1 \<le> n" using n(1) by (simp add: first_stop_def)
  moreover have "step \<noteq> 0" using assms by (simp add: step_def)
  ultimately have "tick + int n * step \<noteq> tick" by simp
  then show ?thesis using n(2) by (auto split: if_splits)
qed

lemma example_dom: "dom (ticks example_index) = {- 120, 60}"
  by (auto simp: example_index_def)

section \<open>Reaching the boundary\<close>

lemma next_boundary:
  assumes ts: "1 \<le> tickSpacing" and rng: "in_range tm tick"
    and none: "\<forall>k. (if zeroForOne then k < tick else tick < k) \<longrightarrow> ticks this k = None"
  shows "nextInitializedTickWithinOneWord tm this tick zeroForOne tickSpacing =
           Some ((if zeroForOne then MIN_TICK tm else MAX_TICK tm, False), this)"
proof -
  define step where "step = (if zeroForOne then - tickSpacing else tickSpacing)"
  have ne: "tickSpacing \<noteq> 0" using ts by simp
  from next_first_stop[OF ne, of tm this tick zeroForOne] obtain n where
    n: "first_stop tm this tick step n"
    "nextInitializedTickWithinOneWord tm this tick zeroForOne tickSpacing =
       Some (if in_range tm (tick + int n * step) then (tick + int n * step, True)
             else (if zeroForOne then MIN_TICK tm else MAX_TICK tm, False), this)"
    unfolding step_def by blast
  have n1: "0 < int n" using n(1) by (simp add: first_stop_def)
  have beyond: "if zeroForOne then tick + int n * step < tick else tick < tick + int n * step"
  proof (cases zeroForOne)
    case True
    then have "step < 0" using ts by (simp add: step_def)
    with n1 have "int n * step < 0" by (rule mult_pos_neg)
    with True show ?thesis by simp
  next
    case False
    then have "0 < step" using ts by (simp add: step_def)
    with n1 have "0 < int n * step" by (rule mult_pos_pos)
    with False show ?thesis by simp
  qed
  with none have "ticks this (tick + int n * step) = None" by blast
  with n(1) have "\<not> in_range tm (tick + int n * step)" by (simp add: first_stop_def)
  with n(2) show ?thesis by simp
qed

section \<open>The fetch loop\<close>

lemma loop_exit:
  "\<not> tick \<le> bound \<Longrightarrow> tickPromises_loop pool tick bound tickSpacing acc = Some acc"
  by (subst tickPromises_loop.simps) simp

lemma loop_round:
  "tick \<le> bound \<Longrightarrow>
   tickPromises_loop pool tick bound tickSpacing acc =
     tickPromises_loop pool (tick + tickSpacing) bound tickSpacing (acc @ [fetch_tick pool tick])"
  by (subst tickPromises_loop.simps) simp

lemma fetched_Suc:
  "fetched pool tick tickSpacing (Suc n) = fetch_tick pool tick # fetched pool (tick + tickSpacing) tickSpacing n"
proof -
  have "map (\<lambda>i. fetch_tick pool (tick + int i * tickSpacing)) [0..<Suc n] =
        fetch_tick pool (tick + int 0 * tickSpacing) #
        map (\<lambda>i. fetch_tick pool (tick + int (Suc i) * tickSpacing)) [0..<n]"
    by (rule map_upt_Suc)
  then show ?thesis by (simp add: fetched_def algebra_simps)
qed

lemma loop_sound:
  "tickPromises_loop pool tick bound tickSpacing acc = Some rs \<Longrightarrow>
   \<exists>n. rs = acc @ fetched pool tick tickSpacing n \<and> (\<forall>i<n. tick + int i * tickSpacing \<le> bound)"
proof (induction rule: tickPromises_loop.raw_induct[rotated 1, consumes 1])
  case (1 f pool tick bound tickSpacing acc rs)
  show ?case
  proof (cases "tick \<le> bound")
    case False
    with 1(2) have "rs = acc" by simp
    then have "rs = acc @ fetched pool tick tickSpacing 0 \<and> (\<forall>i<0. tick + int i * tickSpacing \<le> bound)"
      by (simp add: fetched_def)
    then show ?thesis by blast
  next
    case True
    with 1(2) have "f pool (tick + tickSpacing) bound tickSpacing (acc @ [fetch_tick pool tick]) = Some rs"
      by simp
    from 1(1)[OF this] obtain n where n:
      "rs = (acc @ [fetch_tick pool tick]) @ fetched pool (tick + tickSpacing) tickSpacing n"
      "\<forall>i<n. tick + tickSpacing + int i * tickSpacing \<le> bound" by blast
    have a: "rs = acc @ fetched pool tick tickSpacing (Suc n)" using n(1) by (simp add: fetched_Suc)
    have b: "\<forall>i<Suc n. tick + int i * tickSpacing \<le> bound"
    proof (intro allI impI)
      fix i assume i: "i < Suc n"
      show "tick + int i * tickSpacing \<le> bound"
      proof (cases i)
        case 0
        then show ?thesis using True by simp
      next
        case (Suc j)
        then have "j < n" using i by simp
        with n(2) have "tick + tickSpacing + int j * tickSpacing \<le> bound" by blast
        then show ?thesis using Suc by (simp add: algebra_simps)
      qed
    qed
    from a b show ?thesis by blast
  qed
qed

lemma loop_total:
  assumes "1 \<le> tickSpacing"
  shows "\<exists>rs. tickPromises_loop pool tick bound tickSpacing acc = Some rs"
proof (induction "nat (bound - tick + 1)" arbitrary: tick acc rule: less_induct)
  case less
  show ?case
  proof (cases "tick \<le> bound")
    case False
    then show ?thesis by (simp add: loop_exit)
  next
    case True
    have "nat (bound - (tick + tickSpacing) + 1) < nat (bound - tick + 1)"
      using True assms by simp
    from less[OF this] obtain rs where
      "tickPromises_loop pool (tick + tickSpacing) bound tickSpacing (acc @ [fetch_tick pool tick]) = Some rs"
      by blast
    then show ?thesis using True by (simp add: loop_round)
  qed
qed

lemma fetch_tick_tick: "fetch_tick pool tick = Some tickData \<Longrightarrow> tr_tick tickData = tick"
  by (auto simp: fetch_tick_def split: sum.splits)

lemma collect_dom:
  "k \<in> dom (collect_initialized rs m) \<Longrightarrow>
   k \<in> dom m \<or> (\<exists>tickData. Some tickData \<in> set rs \<and> tr_tick tickData = k)"
proof (induction rs arbitrary: m)
  case Nil
  then show ?case by simp
next
  case (Cons r rs)
  show ?case
  proof (cases r)
    case None
    with Cons.prems have "k \<in> dom (collect_initialized rs m)" by simp
    from Cons.IH[OF this] show ?thesis by auto
  next
    case (Some tickData)
    show ?thesis
    proof (cases "tr_initialized tickData")
      case False
      with Some Cons.prems have "k \<in> dom (collect_initialized rs m)" by simp
      from Cons.IH[OF this] show ?thesis by auto
    next
      case True
      with Some Cons.prems have "k \<in> dom (collect_initialized rs
         (m(tr_tick tickData \<mapsto> \<lparr>liquidityNet = Str (tr_liquidityNet tickData), liquidityGross = Undefined\<rparr>)))"
        by simp
      from Cons.IH[OF this] show ?thesis
      proof
        assume "k \<in> dom (m(tr_tick tickData \<mapsto>
          \<lparr>liquidityNet = Str (tr_liquidityNet tickData), liquidityGross = Undefined\<rparr>))"
        then have "k = tr_tick tickData \<or> k \<in> dom m" by (auto split: if_splits)
        then show ?thesis using Some by auto
      next
        assume "\<exists>tickData. Some tickData \<in> set rs \<and> tr_tick tickData = k"
        then show ?thesis by auto
      qed
    qed
  qed
qed

lemma collect_gross:
  "\<forall>k e. m k = Some e \<longrightarrow> liquidityGross e = Undefined \<Longrightarrow>
   collect_initialized rs m k = Some e \<Longrightarrow> liquidityGross e = Undefined"
proof (induction rs arbitrary: m)
  case Nil
  then show ?case by simp
next
  case (Cons r rs)
  show ?case
  proof (cases r)
    case None
    with Cons.prems(2) have "collect_initialized rs m k = Some e" by simp
    from Cons.IH[OF Cons.prems(1) this] show ?thesis .
  next
    case (Some tickData)
    show ?thesis
    proof (cases "tr_initialized tickData")
      case False
      with Some Cons.prems(2) have "collect_initialized rs m k = Some e" by simp
      from Cons.IH[OF Cons.prems(1) this] show ?thesis .
    next
      case True
      let ?m = "m(tr_tick tickData \<mapsto> \<lparr>liquidityNet = Str (tr_liquidityNet tickData), liquidityGross = Undefined\<rparr>)"
      from True Some Cons.prems(2) have c: "collect_initialized rs ?m k = Some e" by simp
      have "\<forall>k e. ?m k = Some e \<longrightarrow> liquidityGross e = Undefined"
        using Cons.prems(1) by auto
      from Cons.IH[OF this c] show ?thesis .
    qed
  qed
qed

lemma no_rejection:
  assumes "call_fee pool = Inr fee" "call_slot0 pool = Inr slot0Data"
    "call_liquidity pool = Inr liquidity" "call_tickSpacing pool = Inr tickSpacing"
  shows "promise_all_rejection pool = None"
  using assms by (simp add: promise_all_rejection_def rejection_def)

lemma first_rejection_None:
  "first_rejection rs = None \<Longrightarrow> (t, Some e) \<notin> set rs"
proof (induction rs rule: first_rejection.induct)
  case 1
  then show ?case by simp
next
  case (2 t' rs)
  then show ?case by auto
next
  case (3 t' e' rs)
  then show ?case by (auto split: option.splits if_splits)
qed

lemma rejection_reported:
  assumes "promise_all_rejection pool = None"
  shows "rejection (call_fee pool) = None \<and> rejection (call_slot0 pool) = None \<and>
         rejection (call_liquidity pool) = None \<and> rejection (call_tickSpacing pool) = None"
proof -
  let ?rs = "[(call_settled pool 0, rejection (call_fee pool)),
           (call_settled pool 1, rejection (call_slot0 pool)),
           (call_settled pool 2, rejection (call_liquidity pool)),
           (call_settled pool 3, rejection (call_tickSpacing pool))]"
  from assms have n: "first_rejection ?rs = None" by (simp add: promise_all_rejection_def)
  have "rejection (call_fee pool) = None"
    using first_rejection_None[OF n, of "call_settled pool 0"] by (cases "rejection (call_fee pool)") auto
  moreover have "rejection (call_slot0 pool) = None"
    using first_rejection_None[OF n, of "call_settled pool 1"] by (cases "rejection (call_slot0 pool)") auto
  moreover have "rejection (call_liquidity pool) = None"
    using first_rejection_None[OF n, of "call_settled pool 2"] by (cases "rejection (call_liquidity pool)") auto
  moreover have "rejection (call_tickSpacing pool) = None"
    using first_rejection_None[OF n, of "call_settled pool 3"] by (cases "rejection (call_tickSpacing pool)") auto
  ultimately show ?thesis by simp
qed

lemma fetchPoolData_Inr:
  assumes "fetchPoolData pool zeroForOne tickRange = Some (Inr poolData)"
  shows "\<exists>tickResults.
           pd_ticks poolData = collect_initialized tickResults Map.empty \<and>
           call_tickSpacing pool = Inr (pd_tickSpacing poolData) \<and>
           (\<exists>slot0Data. call_slot0 pool = Inr slot0Data \<and> pd_tickCurrent poolData = slot0_tick slot0Data) \<and>
           (if pd_tickSpacing poolData = 0 then tickResults = []
            else tickPromises_loop pool
                   (startTick (pd_tickCurrent poolData) (pd_tickSpacing poolData) tickRange)
                   (endTick (pd_tickCurrent poolData) (pd_tickSpacing poolData) tickRange)
                   (pd_tickSpacing poolData) [] = Some tickResults)"
  using assms
  by (auto simp: fetchPoolData_def Let_def split: sum.splits option.splits if_splits)

lemma toString_examples:
  "toString 1829744519839346889661884864 = ''1829744519839346889661884864''"
  "toString 3161000000 = ''3161000000''"
  "toString (- 1000) = ''-1000''"
  "toString 0 = ''0''"
  by (simp_all add: toString_def nat_digits.simps digit_char_def)

lemma example_bounds:
  "startTick 7 60 1 = - 60" "endTick 7 60 1 = 60"
  by (simp_all add: startTick_def endTick_def)

lemma example_loop:
  "tickPromises_loop example_pool (- 60) 60 60 [] =
     Some [Some \<lparr>tr_tick = - 60, tr_liquidityNet = ''0'', tr_initialized = False\<rparr>,
           None,
           Some \<lparr>tr_tick = 60, tr_liquidityNet = ''-1000'', tr_initialized = True\<rparr>]"
  by (simp add: loop_round loop_exit fetch_tick_def example_pool_def toString_examples)

lemma fetch_example: "fetchPoolData example_pool True 1 = Some (Inr example_pool_data)"
proof -
  have c: "call_fee example_pool = Inr 500"
    "call_slot0 example_pool = Inr \<lparr>slot0_sqrtPriceX96 = 1829744519839346889661884864, slot0_tick = 7\<rparr>"
    "call_liquidity example_pool = Inr 3161000000"
    "call_tickSpacing example_pool = Inr 60"
    by (simp_all add: example_pool_def)
  have r: "promise_all_rejection example_pool = None" by (rule no_rejection[OF c])
  show ?thesis
    by (simp add: fetchPoolData_def r c example_bounds example_loop toString_examples example_pool_data_def)
qed

lemma fetchPoolData_returns:
  assumes "call_fee pool = Inr fee" "call_slot0 pool = Inr slot0Data"
    "call_liquidity pool = Inr liquidity" "call_tickSpacing pool = Inr tickSpacing" "0 \<le> tickSpacing"
  shows "\<exists>poolData. fetchPoolData pool zeroForOne tickRange = Some (Inr poolData)"
proof (cases "tickSpacing = 0")
  case True
  then show ?thesis using assms no_rejection[OF assms(1-4)] by (simp add: fetchPoolData_def)
next
  case False
  with assms(5) have "1 \<le> tickSpacing" by simp
  from loop_total[OF this] obtain rs where
    "tickPromises_loop pool (startTick (slot0_tick slot0Data) tickSpacing tickRange)
       (endTick (slot0_tick slot0Data) tickSpacing tickRange) tickSpacing [] = Some rs" by blast
  then show ?thesis using assms False no_rejection[OF assms(1-4)] by (simp add: fetchPoolData_def)
qed

lemma start_dvd: "tickSpacing dvd startTick currentTick tickSpacing tickRange"
  by (simp add: startTick_def)

section \<open>Claims\<close>

text \<open>
  C1 (as the code has it). For a spacing of at least one and two keys \<open>t1 < t2\<close> of the index,
  both multiples of the spacing, both within the valid range, with no key strictly between
  them: the query from \<open>t1\<close> upwards (\<open>zeroForOne = False\<close>) returns \<open>(t2, true)\<close> and
  the query from \<open>t2\<close> downwards returns \<open>(t1, true)\<close>. In general, for a spacing of at
  least one, the call runs through the candidates \<open>tick + m * step\<close>, \<open>m = 1, 2, ...\<close>, stops
  at the first that is out of range or a key, returns that key with \<open>true\<close> if it is in
  range, and never returns the start tick as a found tick. The index is left unchanged.
\<close>

theorem next_adjacent_keys:
  assumes "1 \<le> tickSpacing"
  shows "(t1 \<in> dom (ticks this) \<and> t2 \<in> dom (ticks this) \<and> t1 < t2 \<and>
          tickSpacing dvd t1 \<and> tickSpacing dvd t2 \<and> in_range tm t1 \<and> in_range tm t2 \<and>
          (\<forall>k\<in>dom (ticks this). \<not> (t1 < k \<and> k < t2)) \<longrightarrow>
            nextInitializedTickWithinOneWord tm this t1 False tickSpacing = Some ((t2, True), this) \<and>
            nextInitializedTickWithinOneWord tm this t2 True tickSpacing = Some ((t1, True), this)) \<and>
         (\<exists>n. first_stop tm this tick (if zeroForOne then - tickSpacing else tickSpacing) n \<and>
            nextInitializedTickWithinOneWord tm this tick zeroForOne tickSpacing =
              Some (if in_range tm (tick + int n * (if zeroForOne then - tickSpacing else tickSpacing))
                    then (tick + int n * (if zeroForOne then - tickSpacing else tickSpacing), True)
                    else (if zeroForOne then MIN_TICK tm else MAX_TICK tm, False), this)) \<and>
         (\<forall>p. nextInitializedTickWithinOneWord tm this tick zeroForOne tickSpacing \<noteq> Some ((tick, True), p))"
proof (intro conjI impI allI)
  assume h: "t1 \<in> dom (ticks this) \<and> t2 \<in> dom (ticks this) \<and> t1 < t2 \<and>
          tickSpacing dvd t1 \<and> tickSpacing dvd t2 \<and> in_range tm t1 \<and> in_range tm t2 \<and>
          (\<forall>k\<in>dom (ticks this). \<not> (t1 < k \<and> k < t2))"
  then have gap: "\<forall>k. t1 < k \<and> k < t2 \<longrightarrow> ticks this k = None" by (auto simp: dom_def)
  from h have k1: "ticks this t1 \<noteq> None" and k2: "ticks this t2 \<noteq> None" by (auto simp: dom_def)
  from h have o: "tickSpacing dvd t1" "tickSpacing dvd t2" "t1 < t2" "in_range tm t1" "in_range tm t2"
    by simp_all
  show "nextInitializedTickWithinOneWord tm this t1 False tickSpacing = Some ((t2, True), this)"
    by (rule next_adjacent_up[OF assms o k2 gap])
  show "nextInitializedTickWithinOneWord tm this t2 True tickSpacing = Some ((t1, True), this)"
    by (rule next_adjacent_down[OF assms o k1 gap])
next
  have ne: "tickSpacing \<noteq> 0" using assms by simp
  show "\<exists>n. first_stop tm this tick (if zeroForOne then - tickSpacing else tickSpacing) n \<and>
            nextInitializedTickWithinOneWord tm this tick zeroForOne tickSpacing =
              Some (if in_range tm (tick + int n * (if zeroForOne then - tickSpacing else tickSpacing))
                    then (tick + int n * (if zeroForOne then - tickSpacing else tickSpacing), True)
                    else (if zeroForOne then MIN_TICK tm else MAX_TICK tm, False), this)"
    by (rule next_first_stop[OF ne])
next
  fix p
  have ne: "tickSpacing \<noteq> 0" using assms by simp
  show "nextInitializedTickWithinOneWord tm this tick zeroForOne tickSpacing \<noteq> Some ((tick, True), p)"
    by (rule next_not_start[OF ne])
qed

theorem next_adjacent_keys_witness:
  "nextInitializedTickWithinOneWord sdk_TickMath example_index (- 120) False 60 = Some ((60, True), example_index) \<and>
   nextInitializedTickWithinOneWord sdk_TickMath example_index 60 True 60 = Some ((- 120, True), example_index) \<and>
   nextInitializedTickWithinOneWord sdk_TickMath example_index 60 True 60 \<noteq> Some ((60, True), example_index)"
proof -
  have ts: "(1::int) \<le> 60" by simp
  have h: "- 120 \<in> dom (ticks example_index) \<and> 60 \<in> dom (ticks example_index) \<and> (- 120 :: int) < 60 \<and>
          (60::int) dvd - 120 \<and> (60::int) dvd 60 \<and> in_range sdk_TickMath (- 120) \<and> in_range sdk_TickMath 60 \<and>
          (\<forall>k\<in>dom (ticks example_index). \<not> (- 120 < k \<and> k < 60))"
    by (simp add: example_dom in_range_def sdk_TickMath_def)
  from next_adjacent_keys[OF ts, of "- 120" example_index 60 sdk_TickMath 60 True] h
  show ?thesis by blast
qed

text \<open>
  C1 as stated fails: a key above \<^verbatim>\<open>MAX_TICK\<close> is never reached (the loop stops at the
  range bound and reports the boundary); with a spacing of zero the start tick itself is
  returned when it is a key; with a negative spacing the scan runs the other way.
\<close>

theorem next_adjacent_keys_counterexample:
  "nextInitializedTickWithinOneWord sdk_TickMath edge_index 887220 False 60
     = Some ((887272, False), edge_index) \<and>
   ticks edge_index 887220 \<noteq> None \<and> ticks edge_index 887280 \<noteq> None \<and>
   (60::int) dvd 887220 \<and> (60::int) dvd 887280 \<and>
   nextInitializedTickWithinOneWord sdk_TickMath example_index 60 True 0
     = Some ((60, True), example_index) \<and>
   nextInitializedTickWithinOneWord sdk_TickMath dense_index 0 False (- 60)
     = Some ((- 60, True), dense_index)"
  by (simp add: next_unfold scan_loop_out scan_loop_hit in_range_def sdk_TickMath_def
      example_index_def edge_index_def dense_index_def)

text \<open>
  C2 (as the code has it). \<open>getTick\<close> is total. For a key it returns each stored field where
  that field is truthy, and the string \<^verbatim>\<open>'0'\<close> in place of a missing or falsy one; so it
  returns exactly the stored record when both fields are truthy. For an absent tick it
  returns the zero-valued record. The index is returned unchanged.
\<close>

theorem getTick_result:
  "getTick this tick =
     (\<lparr>liquidityNet = (case ticks this tick of None \<Rightarrow> Str ''0''
                        | Some e \<Rightarrow> if truthy (liquidityNet e) then liquidityNet e else Str ''0''),
       liquidityGross = (case ticks this tick of None \<Rightarrow> Str ''0''
                        | Some e \<Rightarrow> if truthy (liquidityGross e) then liquidityGross e else Str ''0'')\<rparr>,
      this) \<and>
   (ticks this tick = None \<longrightarrow> fst (getTick this tick) = zero_info) \<and>
   (\<forall>e. ticks this tick = Some e \<and> truthy (liquidityNet e) \<and> truthy (liquidityGross e) \<longrightarrow>
        fst (getTick this tick) = e)"
  by (auto simp: getTick_def field_of_def js_or_def zero_info_def split: option.splits)

theorem getTick_result_witness:
  "fst (getTick example_index 0) = zero_info \<and>
   fst (getTick example_index 60) = \<lparr>liquidityNet = Str ''-1000'', liquidityGross = Str ''1000''\<rparr>"
proof -
  have a: "ticks example_index 0 = None" by (simp add: example_index_def)
  have b: "ticks example_index 60 = Some \<lparr>liquidityNet = Str ''-1000'', liquidityGross = Str ''1000''\<rparr> \<and>
     truthy (liquidityNet \<lparr>liquidityNet = Str ''-1000'', liquidityGross = Str ''1000''\<rparr>) \<and>
     truthy (liquidityGross \<lparr>liquidityNet = Str ''-1000'', liquidityGross = Str ''1000''\<rparr>)"
    by (simp add: example_index_def)
  from getTick_result[of example_index 0] a getTick_result[of example_index 60] b
  show ?thesis by blast
qed

text \<open>
  C2 as stated fails on a record of the shape \<^verbatim>\<open>fetchPoolData\<close> stores: the tick is a key,
  and what \<open>getTick\<close> returns is not the stored record.
\<close>

theorem getTick_result_counterexample:
  "ticks partial_index 60 = Some \<lparr>liquidityNet = Str ''-1000'', liquidityGross = Undefined\<rparr> \<and>
   fst (getTick partial_index 60) = \<lparr>liquidityNet = Str ''-1000'', liquidityGross = Str ''0''\<rparr> \<and>
   fst (getTick partial_index 60) \<noteq> \<lparr>liquidityNet = Str ''-1000'', liquidityGross = Undefined\<rparr>"
  by (simp add: partial_index_def getTick_def field_of_def js_or_def)

text \<open>
  C3 (as the code has it). For a spacing of at least one and a start tick in range: if no
  key lies below the start, the downward query returns \<open>(MIN_TICK, false)\<close>; if no key lies
  above the start, the upward query returns \<open>(MAX_TICK, false)\<close>.
\<close>

theorem next_beyond_outermost:
  assumes "1 \<le> tickSpacing" "in_range tm tick"
  shows "((\<forall>k\<in>dom (ticks this). \<not> k < tick) \<longrightarrow>
            nextInitializedTickWithinOneWord tm this tick True tickSpacing
              = Some ((MIN_TICK tm, False), this)) \<and>
         ((\<forall>k\<in>dom (ticks this). \<not> tick < k) \<longrightarrow>
            nextInitializedTickWithinOneWord tm this tick False tickSpacing
              = Some ((MAX_TICK tm, False), this))"
proof (intro conjI impI)
  assume "\<forall>k\<in>dom (ticks this). \<not> k < tick"
  then have "\<forall>k. (if True then k < tick else tick < k) \<longrightarrow> ticks this k = None"
    by (auto simp: dom_def)
  from next_boundary[OF assms this]
  show "nextInitializedTickWithinOneWord tm this tick True tickSpacing = Some ((MIN_TICK tm, False), this)"
    by simp
next
  assume "\<forall>k\<in>dom (ticks this). \<not> tick < k"
  then have "\<forall>k. (if False then k < tick else tick < k) \<longrightarrow> ticks this k = None"
    by (auto simp: dom_def)
  from next_boundary[OF assms this]
  show "nextInitializedTickWithinOneWord tm this tick False tickSpacing = Some ((MAX_TICK tm, False), this)"
    by simp
qed

theorem next_beyond_outermost_witness:
  "nextInitializedTickWithinOneWord sdk_TickMath example_index (- 120) True 60
     = Some ((- 887272, False), example_index) \<and>
   nextInitializedTickWithinOneWord sdk_TickMath example_index 60 False 60
     = Some ((887272, False), example_index)"
proof -
  have ts: "(1::int) \<le> 60" by simp
  have r1: "in_range sdk_TickMath (- 120)" and r2: "in_range sdk_TickMath 60"
    by (simp_all add: in_range_def sdk_TickMath_def)
  have h1: "\<forall>k\<in>dom (ticks example_index). \<not> k < - 120" by (simp add: example_dom)
  have h2: "\<forall>k\<in>dom (ticks example_index). \<not> 60 < k" by (simp add: example_dom)
  from next_beyond_outermost[OF ts r1, of example_index] h1
    next_beyond_outermost[OF ts r2, of example_index] h2
  show ?thesis by (simp add: sdk_TickMath_def)
qed

text \<open>
  C3 as stated fails without the bound on the spacing: no key lies above \<open>60\<close>, yet with
  spacing zero the upward query from \<open>60\<close> returns \<open>(60, true)\<close>, and with spacing
  \<open>-60\<close> it returns the key below.
\<close>

theorem next_beyond_outermost_counterexample:
  "in_range sdk_TickMath 60 \<and> dom (ticks example_index) = {- 120, 60} \<and>
   nextInitializedTickWithinOneWord sdk_TickMath example_index 60 False 0
     = Some ((60, True), example_index) \<and>
   in_range sdk_TickMath 0 \<and> dom (ticks dense_index) = {- 60, 0, 60} \<and>
   nextInitializedTickWithinOneWord sdk_TickMath dense_index 60 False (- 60)
     = Some ((0, True), dense_index)"
  by (auto simp add: next_unfold scan_loop_out scan_loop_hit in_range_def sdk_TickMath_def
      example_index_def dense_index_def)

text \<open>
  C4 (as the code has it). Construction stores the snapshot as it is and raises no error,
  whatever its keys; every later \<open>getTick\<close> reads the stored snapshot. (An object has no
  duplicate keys, and neither has the map.)
\<close>

theorem constructor_accepts:
  "constructor snapshot = Inr \<lparr>ticks = snapshot\<rparr> \<and>
   constructor snapshot \<noteq> Inl ValidationError \<and>
   (\<exists>this. constructor snapshot = Inr this \<and> ticks this = snapshot \<and>
      (\<forall>tick. fst (getTick this tick) =
         \<lparr>liquidityNet = js_or (field_of (snapshot tick) liquidityNet) (Str ''0''),
          liquidityGross = js_or (field_of (snapshot tick) liquidityGross) (Str ''0'')\<rparr>))"
  by (simp add: constructor_def getTick_def)

text \<open>
  C4 as stated fails: the key \<open>5\<close> is not a multiple of the spacing \<open>10\<close>, and the
  snapshot is accepted.
\<close>

theorem constructor_accepts_counterexample:
  "\<not> (10::int) dvd 5 \<and>
   constructor [5 \<mapsto> \<lparr>liquidityNet = Str ''1000'', liquidityGross = Str ''1000''\<rparr>]
     = Inr \<lparr>ticks = [5 \<mapsto> \<lparr>liquidityNet = Str ''1000'', liquidityGross = Str ''1000''\<rparr>]\<rparr> \<and>
   constructor [5 \<mapsto> \<lparr>liquidityNet = Str ''1000'', liquidityGross = Str ''1000''\<rparr>]
     \<noteq> Inl ValidationError"
  by (simp add: constructor_def)




text \<open>
  C6 (as the code has it). The concrete scenario, spacing 60 and initialized ticks \<open>-120\<close>
  and \<open>60\<close>, for any bounds that contain both ticks: the upward query from \<open>0\<close> returns
  \<open>(60, true)\<close>, the downward query returns \<open>(-120, true)\<close>, \<open>getTick 60\<close> returns the
  stored record, and \<open>getTick 0\<close> returns the record of the two strings \<^verbatim>\<open>'0'\<close>. This
  holds with the amounts stored as numbers, as the scenario writes them, and with the
  amounts stored as decimal strings; the zero of \<open>getTick 0\<close> is the string in both cases.
\<close>

theorem scenario:
  assumes "MIN_TICK tm \<le> - 120" "60 \<le> MAX_TICK tm"
  shows "nextInitializedTickWithinOneWord tm example_index 0 False 60 = Some ((60, True), example_index) \<and>
         nextInitializedTickWithinOneWord tm example_index 0 True 60 = Some ((- 120, True), example_index) \<and>
         fst (getTick example_index 60) = \<lparr>liquidityNet = Str ''-1000'', liquidityGross = Str ''1000''\<rparr> \<and>
         fst (getTick example_index 0) = \<lparr>liquidityNet = Str ''0'', liquidityGross = Str ''0''\<rparr> \<and>
         nextInitializedTickWithinOneWord tm example_index_num 0 False 60 = Some ((60, True), example_index_num) \<and>
         nextInitializedTickWithinOneWord tm example_index_num 0 True 60 = Some ((- 120, True), example_index_num) \<and>
         fst (getTick example_index_num 60) = \<lparr>liquidityNet = Num (- 1000), liquidityGross = Num 1000\<rparr> \<and>
         fst (getTick example_index_num 0) = \<lparr>liquidityNet = Str ''0'', liquidityGross = Str ''0''\<rparr>"
proof -
  have r: "in_range tm 60" "in_range tm (- 60)" "in_range tm (- 120)"
    using assms by (simp_all add: in_range_def)
  have s: "nextInitializedTickWithinOneWord tm example_index 0 False 60 = Some ((60, True), example_index)"
     "nextInitializedTickWithinOneWord tm example_index 0 True 60 = Some ((- 120, True), example_index)"
    using r by (simp_all add: next_unfold scan_loop_hit scan_loop_step example_index_def)
  have n: "nextInitializedTickWithinOneWord tm example_index_num 0 False 60 = Some ((60, True), example_index_num)"
     "nextInitializedTickWithinOneWord tm example_index_num 0 True 60 = Some ((- 120, True), example_index_num)"
    using r by (simp_all add: next_unfold scan_loop_hit scan_loop_step example_index_num_def)
  have g: "fst (getTick example_index 60) = \<lparr>liquidityNet = Str ''-1000'', liquidityGross = Str ''1000''\<rparr>"
    "fst (getTick example_index 0) = \<lparr>liquidityNet = Str ''0'', liquidityGross = Str ''0''\<rparr>"
    "fst (getTick example_index_num 60) = \<lparr>liquidityNet = Num (- 1000), liquidityGross = Num 1000\<rparr>"
    "fst (getTick example_index_num 0) = \<lparr>liquidityNet = Str ''0'', liquidityGross = Str ''0''\<rparr>"
    by (simp_all add: getTick_def field_of_def js_or_def example_index_def example_index_num_def)
  from s n g show ?thesis by simp
qed

theorem scenario_witness:
  "nextInitializedTickWithinOneWord sdk_TickMath example_index_num 0 False 60
     = Some ((60, True), example_index_num) \<and>
   nextInitializedTickWithinOneWord sdk_TickMath example_index_num 0 True 60
     = Some ((- 120, True), example_index_num) \<and>
   fst (getTick example_index_num 60) = \<lparr>liquidityNet = Num (- 1000), liquidityGross = Num 1000\<rparr> \<and>
   fst (getTick example_index_num 0) = \<lparr>liquidityNet = Str ''0'', liquidityGross = Str ''0''\<rparr> \<and>
   nextInitializedTickWithinOneWord sdk_TickMath example_index 0 False 60 = Some ((60, True), example_index) \<and>
   nextInitializedTickWithinOneWord sdk_TickMath example_index 0 True 60 = Some ((- 120, True), example_index)"
proof -
  have a: "MIN_TICK sdk_TickMath \<le> - 120" and b: "60 \<le> MAX_TICK sdk_TickMath"
    by (simp_all add: sdk_TickMath_def)
  from scenario[OF a b] show ?thesis by simp
qed

text \<open>
  C6 as stated fails in its last part: with the amounts stored as the numbers the scenario
  writes, \<open>getTick 0\<close> returns the strings \<^verbatim>\<open>'0'\<close>, which is not the record of the two
  numbers \<open>0\<close>.
\<close>

theorem scenario_counterexample:
  "ticks example_index_num 0 = None \<and>
   fst (getTick example_index_num 0) = \<lparr>liquidityNet = Str ''0'', liquidityGross = Str ''0''\<rparr> \<and>
   fst (getTick example_index_num 0) \<noteq> \<lparr>liquidityNet = Num 0, liquidityGross = Num 0\<rparr>"
  by (simp add: getTick_def field_of_def js_or_def example_index_num_def)

text \<open>
  C7. Neither query changes the index: the provider a call returns is the provider it was
  called on. Hence after any number \<open>n\<close> of repetitions of a query the index is the same
  and the query gives the same result again, and either query gives the same result after
  the other.
\<close>

theorem queries_leave_index:
  "snd (getTick this tick) = this \<and>
   ((\<lambda>p. snd (getTick p tick)) ^^ n) this = this \<and>
   getTick (((\<lambda>p. snd (getTick p tick)) ^^ n) this) tick = getTick this tick \<and>
   (\<forall>r p. nextInitializedTickWithinOneWord tm this tick' zeroForOne tickSpacing = Some (r, p) \<longrightarrow>
      p = this \<and>
      nextInitializedTickWithinOneWord tm p tick' zeroForOne tickSpacing = Some (r, p) \<and>
      getTick p tick = getTick this tick) \<and>
   ((\<lambda>p. case nextInitializedTickWithinOneWord tm p tick' zeroForOne tickSpacing of
          None \<Rightarrow> p | Some (r, q) \<Rightarrow> q) ^^ n) this = this \<and>
   nextInitializedTickWithinOneWord tm (snd (getTick this tick)) tick' zeroForOne tickSpacing
     = nextInitializedTickWithinOneWord tm this tick' zeroForOne tickSpacing"
proof -
  have a: "snd (getTick p tick) = p" for p by (simp add: getTick_def)
  have b: "((\<lambda>p. snd (getTick p tick)) ^^ n) this = this"
    by (induction n) (simp_all add: a)
  have c: "p = q" if "nextInitializedTickWithinOneWord tm q tick' zeroForOne tickSpacing = Some (r, p)"
    for r p q
  proof -
    from that have "scan_loop tm q zeroForOne (if zeroForOne then - tickSpacing else tickSpacing)
       (tick' + (if zeroForOne then - tickSpacing else tickSpacing)) = Some (r, p)"
      by (simp add: next_unfold)
    from scan_sound[OF this] show ?thesis by (auto split: if_splits)
  qed
  have d: "(case nextInitializedTickWithinOneWord tm q tick' zeroForOne tickSpacing of
          None \<Rightarrow> q | Some (r, q') \<Rightarrow> q') = q" for q
    using c[of q] by (auto split: option.splits)
  have e: "((\<lambda>p. case nextInitializedTickWithinOneWord tm p tick' zeroForOne tickSpacing of
          None \<Rightarrow> p | Some (r, q) \<Rightarrow> q) ^^ n) this = this"
    by (induction n) (simp_all add: d)
  have f: "\<forall>r p. nextInitializedTickWithinOneWord tm this tick' zeroForOne tickSpacing = Some (r, p) \<longrightarrow>
      p = this \<and>
      nextInitializedTickWithinOneWord tm p tick' zeroForOne tickSpacing = Some (r, p) \<and>
      getTick p tick = getTick this tick"
    using c[of this] by auto
  have g: "getTick (((\<lambda>p. snd (getTick p tick)) ^^ n) this) tick = getTick this tick"
    by (simp only: b)
  have h: "nextInitializedTickWithinOneWord tm (snd (getTick this tick)) tick' zeroForOne tickSpacing
     = nextInitializedTickWithinOneWord tm this tick' zeroForOne tickSpacing"
    by (simp only: a)
  from a[of this] b g f e h show ?thesis by (intro conjI)
qed

theorem queries_leave_index_witness:
  "nextInitializedTickWithinOneWord sdk_TickMath example_index 0 False 60 = Some ((60, True), example_index) \<and>
   nextInitializedTickWithinOneWord sdk_TickMath example_index 0 False 60
     = nextInitializedTickWithinOneWord sdk_TickMath (snd (getTick example_index 60)) 0 False 60 \<and>
   getTick (((\<lambda>p. snd (getTick p 60)) ^^ 3) example_index) 60 = getTick example_index 60"
proof -
  have e: "nextInitializedTickWithinOneWord sdk_TickMath example_index 0 False 60 = Some ((60, True), example_index)"
    by (simp add: next_unfold scan_loop_hit in_range_def sdk_TickMath_def example_index_def)
  from queries_leave_index[where this=example_index and tick=60 and n=3 and tm=sdk_TickMath
      and tick'=0 and zeroForOne=False and tickSpacing=60] e
  show ?thesis by simp
qed

text \<open>
  C8. For every start tick and every spacing of at least one the call returns: the
  candidates leave the range after finitely many steps. With spacing zero, a start tick in
  range that is not a key makes the loop run forever.
\<close>

theorem next_terminates:
  "(1 \<le> tickSpacing \<longrightarrow>
      (\<exists>r. nextInitializedTickWithinOneWord tm this tick zeroForOne tickSpacing = Some r) \<and>
      (\<exists>n. \<not> in_range tm (tick + int (Suc n) * (if zeroForOne then - tickSpacing else tickSpacing)))) \<and>
   (in_range tm tick \<and> ticks this tick = None \<longrightarrow>
      nextInitializedTickWithinOneWord tm this tick zeroForOne 0 = None)"
proof (intro conjI impI)
  assume ts: "1 \<le> tickSpacing"
  define step where "step = (if zeroForOne then - tickSpacing else tickSpacing)"
  have step: "step \<noteq> 0" using ts by (simp add: step_def)
  from scan_total[OF step, of tm this zeroForOne "tick + step"]
  show "\<exists>r. nextInitializedTickWithinOneWord tm this tick zeroForOne tickSpacing = Some r"
    by (simp add: next_unfold step_def)
  from leaves_range[OF step, of tm "tick + step"] obtain n where "\<not> in_range tm (tick + step + int n * step)"
    by blast
  then have "\<not> in_range tm (tick + int (Suc n) * step)" by (simp add: algebra_simps)
  then show "\<exists>n. \<not> in_range tm (tick + int (Suc n) * (if zeroForOne then - tickSpacing else tickSpacing))"
    unfolding step_def by blast
next
  assume "in_range tm tick \<and> ticks this tick = None"
  then have "scan_loop tm this zeroForOne 0 tick = None" by (simp add: scan_stuck)
  then show "nextInitializedTickWithinOneWord tm this tick zeroForOne 0 = None"
    by (cases zeroForOne) (simp_all add: next_unfold)
qed

theorem next_terminates_witness:
  "(\<exists>r. nextInitializedTickWithinOneWord sdk_TickMath example_index 0 False 60 = Some r) \<and>
   nextInitializedTickWithinOneWord sdk_TickMath example_index 0 False 0 = None"
proof -
  have a: "(1::int) \<le> 60" by simp
  have b: "in_range sdk_TickMath 0 \<and> ticks example_index 0 = None"
    by (simp add: in_range_def sdk_TickMath_def example_index_def)
  from next_terminates[where tickSpacing=60 and tm=sdk_TickMath and this=example_index and tick=0 and zeroForOne=False] a
    next_terminates[where tickSpacing=0 and tm=sdk_TickMath and this=example_index and tick=0 and zeroForOne=False] b
  show ?thesis by blast
qed

text \<open>
  C9. For every snapshot \<^verbatim>\<open>fetchPoolData\<close> returns, the provider built from its ticks
  answers \<open>getTick\<close> with \<open>liquidityGross = '0'\<close> for every tick: a stored record has no
  \<open>liquidityGross\<close>.
\<close>

theorem fetched_gross_zero:
  assumes "fetchPoolData pool zeroForOne tickRange = Some (Inr poolData)"
    and "constructor (pd_ticks poolData) = Inr this"
  shows "liquidityGross (fst (getTick this tick)) = Str ''0'' \<and>
         (\<forall>e. ticks this tick = Some e \<longrightarrow> liquidityGross e = Undefined)"
proof -
  from fetchPoolData_Inr[OF assms(1)] obtain tickResults where
    t: "pd_ticks poolData = collect_initialized tickResults Map.empty" by blast
  have stored: "ticks this = pd_ticks poolData" using assms(2) by (auto simp: constructor_def)
  have e: "\<forall>k e. Map.empty k = Some e \<longrightarrow> liquidityGross e = Undefined" by simp
  have g: "liquidityGross e = Undefined" if "ticks this tick = Some e" for e
    using collect_gross[OF e, of tickResults tick e] that stored t by simp
  have "liquidityGross (fst (getTick this tick)) = Str ''0''"
    using g by (cases "ticks this tick") (simp_all add: getTick_def field_of_def js_or_def)
  with g show ?thesis by blast
qed

theorem fetched_gross_zero_witness:
  "ticks \<lparr>ticks = pd_ticks example_pool_data\<rparr> 60
     = Some \<lparr>liquidityNet = Str ''-1000'', liquidityGross = Undefined\<rparr> \<and>
   liquidityGross (fst (getTick \<lparr>ticks = pd_ticks example_pool_data\<rparr> 60)) = Str ''0'' \<and>
   liquidityGross (fst (getTick \<lparr>ticks = pd_ticks example_pool_data\<rparr> 0)) = Str ''0''"
proof -
  have c: "constructor (pd_ticks example_pool_data) = Inr \<lparr>ticks = pd_ticks example_pool_data\<rparr>"
    by (simp add: constructor_def)
  have s: "ticks \<lparr>ticks = pd_ticks example_pool_data\<rparr> 60
     = Some \<lparr>liquidityNet = Str ''-1000'', liquidityGross = Undefined\<rparr>"
    by (simp add: example_pool_data_def)
  from fetched_gross_zero[OF fetch_example c, of 60] fetched_gross_zero[OF fetch_example c, of 0] s
  show ?thesis by blast
qed

text \<open>
  C10. For every snapshot \<^verbatim>\<open>fetchPoolData\<close> returns with a spacing of at least one, every
  key of its ticks is a multiple of the spacing and lies between \<open>startTick\<close> and
  \<open>endTick\<close>.
\<close>

theorem fetched_keys_aligned:
  assumes "fetchPoolData pool zeroForOne tickRange = Some (Inr poolData)"
    and "1 \<le> pd_tickSpacing poolData"
  shows "\<forall>k\<in>dom (pd_ticks poolData).
           pd_tickSpacing poolData dvd k \<and>
           startTick (pd_tickCurrent poolData) (pd_tickSpacing poolData) tickRange \<le> k \<and>
           k \<le> endTick (pd_tickCurrent poolData) (pd_tickSpacing poolData) tickRange"
proof
  fix k assume k: "k \<in> dom (pd_ticks poolData)"
  define ts where "ts = pd_tickSpacing poolData"
  define lo where "lo = startTick (pd_tickCurrent poolData) ts tickRange"
  define hi where "hi = endTick (pd_tickCurrent poolData) ts tickRange"
  have ts: "1 \<le> ts" using assms(2) by (simp add: ts_def)
  from fetchPoolData_Inr[OF assms(1)] ts obtain tickResults where
    t: "pd_ticks poolData = collect_initialized tickResults Map.empty"
    "tickPromises_loop pool lo hi ts [] = Some tickResults"
    unfolding ts_def lo_def hi_def by (auto split: if_splits)
  from loop_sound[OF t(2)] obtain n where
    n: "tickResults = fetched pool lo ts n" "\<forall>i<n. lo + int i * ts \<le> hi" by auto
  from k t(1) have "k \<in> dom (collect_initialized tickResults Map.empty)" by simp
  from collect_dom[OF this] obtain tickData where
    td: "Some tickData \<in> set tickResults" "tr_tick tickData = k" by auto
  from td(1) n(1) obtain i where i: "i < n" "fetch_tick pool (lo + int i * ts) = Some tickData"
    by (auto simp: fetched_def)
  from fetch_tick_tick[OF i(2)] td(2) have keq: "k = lo + int i * ts" by simp
  have "ts dvd lo" unfolding lo_def by (rule start_dvd)
  then have d: "ts dvd k" unfolding keq by simp
  have "0 \<le> int i * ts" using ts by simp
  then have l: "lo \<le> k" unfolding keq by simp
  have h: "k \<le> hi" unfolding keq using n(2) i(1) by blast
  from d l h show "pd_tickSpacing poolData dvd k \<and>
           startTick (pd_tickCurrent poolData) (pd_tickSpacing poolData) tickRange \<le> k \<and>
           k \<le> endTick (pd_tickCurrent poolData) (pd_tickSpacing poolData) tickRange"
    unfolding ts_def lo_def hi_def by simp
qed

theorem fetched_keys_aligned_witness:
  "fetchPoolData example_pool True 1 = Some (Inr example_pool_data) \<and>
   60 \<in> dom (pd_ticks example_pool_data) \<and>
   (60::int) dvd 60 \<and> startTick 7 60 1 \<le> 60 \<and> 60 \<le> endTick 7 60 1"
proof -
  have ts: "1 \<le> pd_tickSpacing example_pool_data" by (simp add: example_pool_data_def)
  have k: "60 \<in> dom (pd_ticks example_pool_data)" by (simp add: example_pool_data_def)
  from fetched_keys_aligned[OF fetch_example ts] k
  have "pd_tickSpacing example_pool_data dvd 60 \<and>
        startTick (pd_tickCurrent example_pool_data) (pd_tickSpacing example_pool_data) 1 \<le> 60 \<and>
        60 \<le> endTick (pd_tickCurrent example_pool_data) (pd_tickSpacing example_pool_data) 1"
    by blast
  then show ?thesis using fetch_example k by (simp add: example_pool_data_def)
qed


end
